theory Spec2Isabelle
  imports Complex_Main "HOL-Library.AList"
begin

section \<open>Python and numpy building blocks\<close>

text \<open>
  Exceptions of the Python run time that the three scripts can raise. A raise aborts the
  whole run, so every fallible function returns \<open>error + 'a\<close> with \<open>Inl\<close> the exception.
\<close>

datatype error = ValueError | TypeError | KeyError

text \<open>Python slicing \<open>xs[:n]\<close>: a negative bound counts from the end.\<close>

definition py_take :: "int \<Rightarrow> 'a list \<Rightarrow> 'a list" where
  "py_take n xs = (if 0 \<le> n then take (nat n) xs else take (nat (int (length xs) + n)) xs)"

text \<open>\<open>np.arange(k)\<close> is \<open>0, 1, ..., k - 1\<close>, and empty for \<open>k \<le> 0\<close>.\<close>

definition np_arange :: "int \<Rightarrow> int list" where
  "np_arange k = map int [0..<nat k]"

text \<open>
  An elementwise binary operation on two one-dimensional arrays. numpy broadcasts a length-1
  operand over the other one and raises \<open>ValueError\<close> (operands could not be broadcast
  together) for any other pair of different lengths.
\<close>

definition broadcast2 :: "('a \<Rightarrow> 'b \<Rightarrow> 'c) \<Rightarrow> 'a list \<Rightarrow> 'b list \<Rightarrow> error + 'c list" where
  "broadcast2 f xs ys =
     (if length xs = length ys then Inr (map2 f xs ys)
      else if length xs = 1 then Inr (map (f (hd xs)) ys)
      else if length ys = 1 then Inr (map (\<lambda>x. f x (hd ys)) xs)
      else Inl ValueError)"

text \<open>\<open>np.cumsum\<close>: running sums, same length as the input.\<close>

fun cumsum_from :: "int \<Rightarrow> int list \<Rightarrow> int list" where
  "cumsum_from acc [] = []"
| "cumsum_from acc (x # xs) = (acc + x) # cumsum_from (acc + x) xs"

definition cumsum :: "int list \<Rightarrow> int list" where
  "cumsum xs = cumsum_from 0 xs"

text \<open>
  \<open>y_pred.argsort()\<close> with numpy's default kind, an unstable sort: the result is some
  ordering of the row positions that sorts the scores ascending, and numpy does not say in
  which order rows of equal score come. The sort is therefore a parameter \<open>argsort\<close> of the
  model, and \<open>is_argsort\<close> is all that is known of it. Scores are reals (no NaN).
\<close>

definition is_argsort :: "(real list \<Rightarrow> nat list) \<Rightarrow> bool" where
  "is_argsort argsort \<longleftrightarrow>
     (\<forall>ys. distinct (argsort ys) \<and> set (argsort ys) = {0..<length ys}
          \<and> sorted (map (\<lambda>i. ys ! i) (argsort ys)))"

text \<open>
  One sort that \<open>is_argsort\<close> admits: the insertion sort, which leaves rows of equal score
  in row order (numpy's \<open>kind='stable'\<close>).
\<close>

definition stable_argsort :: "real list \<Rightarrow> nat list" where
  "stable_argsort ys = sort_key (\<lambda>i. ys ! i) [0..<length ys]"

text \<open>\<open>np.mean\<close> of a list of floats; of the empty list it is NaN, modelled as \<open>None\<close>.\<close>

definition np_mean :: "real list \<Rightarrow> real option" where
  "np_mean xs = (if xs = [] then None else Some (sum_list xs / real (length xs)))"

section \<open>Ranking evaluation (06_train_lgbm.py)\<close>

text \<open>\<open>_dcg\<close>: binary relevance over a log2 rank discount, for an array of any size.\<close>

definition dcg :: "int list \<Rightarrow> real" where
  "dcg rels = sum_list (map2 (\<lambda>r d. real_of_int r / log 2 (real d)) rels [2..<length rels + 2])"

text \<open>
  The ranking of one group: \<open>order = y_pred.argsort()[::-1]\<close>, \<open>topk = order[:k]\<close>.
\<close>

definition ranking :: "(real list \<Rightarrow> nat list) \<Rightarrow> real list \<Rightarrow> nat list" where
  "ranking argsort y_pred = rev (argsort y_pred)"

definition topk :: "(real list \<Rightarrow> nat list) \<Rightarrow> int \<Rightarrow> real list \<Rightarrow> nat list" where
  "topk argsort k y_pred = py_take k (ranking argsort y_pred)"

text \<open>
  The MAP part of the loop body of \<open>eval_metrics\<close>, for \<open>hits = y_true[topk]\<close>:
  \<open>cumsum / (np.arange(k) + 1)\<close> and \<open>precision_at_i * hits\<close> are numpy operations on
  arrays of length \<open>len(hits)\<close> and \<open>k\<close>.
\<close>

definition map_at_k :: "int \<Rightarrow> int list \<Rightarrow> int list \<Rightarrow> error + real" where
  "map_at_k k y_true hits =
     (if sum_list hits = 0 then Inr 0
      else
        (case broadcast2 (\<lambda>c d. real_of_int c / real_of_int d) (cumsum hits)
                (map (\<lambda>i. i + 1) (np_arange k)) of
           Inl e \<Rightarrow> Inl e
         | Inr precision_at_i \<Rightarrow>
             (case broadcast2 (\<lambda>p h. p * real_of_int h) precision_at_i hits of
                Inl e \<Rightarrow> Inl e
              | Inr ph \<Rightarrow> Inr (sum_list ph / real_of_int (min (sum_list y_true) k)))))"

definition ndcg_at_k :: "int \<Rightarrow> int list \<Rightarrow> int list \<Rightarrow> real" where
  "ndcg_at_k k y_true hits =
     (let ideal_topk = py_take k (rev (sort y_true));
          idcg = dcg ideal_topk
      in if idcg > 0 then dcg hits / idcg else 0)"

text \<open>
  One iteration of the loop of \<open>eval_metrics\<close>: the pair appended to \<open>map_scores\<close> and
  \<open>ndcg_scores\<close> for the group with labels \<open>y_true\<close> and scores \<open>y_pred\<close> (equal lengths,
  the columns of one data frame).
\<close>

definition group_metrics ::
  "(real list \<Rightarrow> nat list) \<Rightarrow> int \<Rightarrow> int list \<Rightarrow> real list \<Rightarrow> error + (real \<times> real)" where
  "group_metrics argsort k y_true y_pred =
     (if sum_list y_true = 0 then Inr (0, 0)
      else
        (let hits = map (\<lambda>i. y_true ! i) (topk argsort k y_pred)
         in case map_at_k k y_true hits of
              Inl e \<Rightarrow> Inl e
            | Inr ap \<Rightarrow> Inr (ap, ndcg_at_k k y_true hits)))"

text \<open>
  \<open>df_pred.groupby("userId")\<close>: the groups in ascending user id, each with its rows in
  data-frame order. A row of \<open>df_pred\<close> is (userId, label, pred).
\<close>

type_synonym pred_row = "int \<times> int \<times> real"

definition groupby_user :: "pred_row list \<Rightarrow> (int list \<times> real list) list" where
  "groupby_user df =
     map (\<lambda>u. (let g = filter (\<lambda>r. fst r = u) df in (map (fst \<circ> snd) g, map (snd \<circ> snd) g)))
         (sort (remdups (map fst df)))"

fun collect_metrics ::
  "(real list \<Rightarrow> nat list) \<Rightarrow> int \<Rightarrow> (int list \<times> real list) list
     \<Rightarrow> error + (real list \<times> real list)" where
  "collect_metrics argsort k [] = Inr ([], [])"
| "collect_metrics argsort k ((y_true, y_pred) # gs) =
     (case group_metrics argsort k y_true y_pred of
        Inl e \<Rightarrow> Inl e
      | Inr (ap, nd) \<Rightarrow>
          (case collect_metrics argsort k gs of
             Inl e \<Rightarrow> Inl e
           | Inr (ms, ns) \<Rightarrow> Inr (ap # ms, nd # ns)))"

definition eval_metrics ::
  "(real list \<Rightarrow> nat list) \<Rightarrow> pred_row list \<Rightarrow> int \<Rightarrow> error + (real option \<times> real option)" where
  "eval_metrics argsort df_pred k =
     (case collect_metrics argsort k (groupby_user df_pred) of
        Inl e \<Rightarrow> Inl e
      | Inr (map_scores, ndcg_scores) \<Rightarrow> Inr (np_mean map_scores, np_mean ndcg_scores))"

text \<open>
  The ordering the specification asks for: a stable sort of the row positions keyed by the
  negated score, so that equal scores keep their row order.
\<close>

definition stable_desc_order :: "real list \<Rightarrow> nat list" where
  "stable_desc_order y_pred = sort_key (\<lambda>i. - (y_pred ! i)) [0..<length y_pred]"

section \<open>Confidence matrix (01_build_mf.py)\<close>

text \<open>
  A row of the ratings table. Ratings are reals: float32 rounding is not modelled, sums and
  products are exact.
\<close>

record interaction =
  userId :: int
  movieId :: int
  rating :: real
  timestamp :: int

text \<open>
  \<open>Series.unique()\<close> and \<open>drop_duplicates\<close>: the distinct values in order of first
  appearance.
\<close>

fun unique_from :: "'a list \<Rightarrow> 'a list \<Rightarrow> 'a list" where
  "unique_from seen [] = []"
| "unique_from seen (x # xs) =
     (if x \<in> set seen then unique_from seen xs else x # unique_from (x # seen) xs)"

definition unique :: "'a list \<Rightarrow> 'a list" where
  "unique xs = unique_from [] xs"

text \<open>\<open>value_counts()\<close> read at one key: the number of rows that carry it.\<close>

definition value_count :: "(interaction \<Rightarrow> int) \<Rightarrow> interaction list \<Rightarrow> int \<Rightarrow> int" where
  "value_count col ratings v = int (length (filter (\<lambda>x. col x = v) ratings))"

text \<open>
  Step 2 of \<open>main\<close>: the user filter, then the item filter on the table the user filter
  left, then the restriction to the items of the metadata file.
\<close>

definition prune_users :: "int \<Rightarrow> interaction list \<Rightarrow> interaction list" where
  "prune_users min_user_cnt ratings =
     (if min_user_cnt > 0
      then filter (\<lambda>x. value_count userId ratings (userId x) \<ge> min_user_cnt) ratings
      else ratings)"

definition prune_items :: "int \<Rightarrow> interaction list \<Rightarrow> interaction list" where
  "prune_items min_item_cnt ratings =
     (if min_item_cnt > 0
      then filter (\<lambda>x. value_count movieId ratings (movieId x) \<ge> min_item_cnt) ratings
      else ratings)"

definition kept_ratings :: "int \<Rightarrow> int \<Rightarrow> int list \<Rightarrow> interaction list \<Rightarrow> interaction list" where
  "kept_ratings min_user_cnt min_item_cnt all_item_ids ratings =
     filter (\<lambda>x. movieId x \<in> set all_item_ids)
       (prune_items min_item_cnt (prune_users min_user_cnt ratings))"

text \<open>
  A Python dict as an association list in insertion order; \<open>d[k] = v\<close> overwrites in place
  or appends (\<open>AList.update\<close>), \<open>d.get(k)\<close> is \<open>map_of d k\<close>, \<open>len(d)\<close> is \<open>length d\<close>.
  \<open>{x: i for i, x in enumerate(xs)}\<close>:
\<close>

type_synonym ('k, 'v) dict = "('k \<times> 'v) list"

definition enumerate_dict :: "int list \<Rightarrow> (int, nat) dict" where
  "enumerate_dict xs = fold (\<lambda>(i, x) d. AList.update x i d) (enumerate 0 xs) []"

text \<open>
  \<open>column.map(d.get).astype(np.int32)\<close>: a key that the dict lacks maps to a missing value,
  which the cast to integers rejects. Dense indices stay far below \<open>2^31\<close>.
\<close>

fun map_get_int32 :: "(int, nat) dict \<Rightarrow> int list \<Rightarrow> error + nat list" where
  "map_get_int32 d [] = Inr []"
| "map_get_int32 d (k # ks) =
     (case map_of d k of
        None \<Rightarrow> Inl ValueError
      | Some i \<Rightarrow> (case map_get_int32 d ks of Inl e \<Rightarrow> Inl e | Inr js \<Rightarrow> Inr (i # js)))"

text \<open>
  \<open>scipy.sparse.coo_matrix((vals, (rows, cols)), shape)\<close> keeps one stored entry per
  input triple, duplicates included, and raises when an index is outside the shape.
\<close>

record coo_matrix =
  entries :: "(nat \<times> nat \<times> real) list"
  shape :: "nat \<times> nat"

definition coo_matrix_of :: "real list \<Rightarrow> nat list \<Rightarrow> nat list \<Rightarrow> nat \<times> nat \<Rightarrow> error + coo_matrix" where
  "coo_matrix_of vals rows cols shp =
     (if list_all (\<lambda>r. r < fst shp) rows \<and> list_all (\<lambda>c. c < snd shp) cols
      then Inr \<lparr>entries = zip rows (zip cols vals), shape = shp\<rparr>
      else Inl ValueError)"

definition build_confidence ::
  "interaction list \<Rightarrow> (int, nat) dict \<Rightarrow> (int, nat) dict \<Rightarrow> real \<Rightarrow> error + coo_matrix" where
  "build_confidence ratings user2row item2col alpha =
     (case map_get_int32 user2row (map userId ratings) of
        Inl e \<Rightarrow> Inl e
      | Inr rows \<Rightarrow>
          (case map_get_int32 item2col (map movieId ratings) of
             Inl e \<Rightarrow> Inl e
           | Inr cols \<Rightarrow>
               (let vals = map (\<lambda>x. 1 + alpha * rating x) ratings
                in coo_matrix_of vals rows cols (length user2row, length item2col))))"

text \<open>
  \<open>C.tocsr()\<close>, the matrix handed to the factorization: scipy sums the stored entries
  that share a coordinate; a coordinate without entry reads as zero.
\<close>

definition tocsr :: "coo_matrix \<Rightarrow> nat \<Rightarrow> nat \<Rightarrow> real" where
  "tocsr C r c = sum_list (map (\<lambda>e. snd (snd e)) (filter (\<lambda>e. fst e = r \<and> fst (snd e) = c) (entries C)))"

text \<open>
  Steps 1 to 4 of \<open>main\<close>, from the raw ratings and the id column of the metadata file to
  the confidence matrix: the index maps are built after the filters, from what they kept.
\<close>

definition all_item_ids :: "int list \<Rightarrow> int list" where
  "all_item_ids movie_ids = unique movie_ids"

definition user2row_of :: "interaction list \<Rightarrow> (int, nat) dict" where
  "user2row_of ratings = enumerate_dict (unique (map userId ratings))"

definition item2col_of :: "int list \<Rightarrow> (int, nat) dict" where
  "item2col_of movie_ids = enumerate_dict (all_item_ids movie_ids)"

definition confidence_main ::
  "int \<Rightarrow> int \<Rightarrow> real \<Rightarrow> int list \<Rightarrow> interaction list \<Rightarrow> error + coo_matrix" where
  "confidence_main min_user_cnt min_item_cnt alpha movie_ids raw =
     (let ratings = kept_ratings min_user_cnt min_item_cnt (all_item_ids movie_ids) raw
      in build_confidence ratings (user2row_of ratings) (item2col_of movie_ids) alpha)"

text \<open>
  The pruning rule in the specification's words: an interaction is dropped exactly when its
  user or its item has too few interactions in the raw table, both counted on the raw table.
\<close>

definition spec_pruned :: "int \<Rightarrow> int \<Rightarrow> interaction list \<Rightarrow> interaction list" where
  "spec_pruned min_user_cnt min_item_cnt raw =
     filter (\<lambda>x. \<not> (value_count userId raw (userId x) < min_user_cnt
                    \<or> value_count movieId raw (movieId x) < min_item_cnt)) raw"

section \<open>Labeled examples (05_build_features.py)\<close>

text \<open>A row of the metadata table (the columns that reach the output) and an output row.\<close>

record item_meta =
  runtime_z :: real
  lang_idx :: int
  popularity :: real
  vote_average :: real
  vote_count :: real

record feature_row =
  row_userId :: int
  row_movieId :: int
  row_label :: int
  row_runtime_z :: real
  row_lang_idx :: int
  row_popularity :: real
  row_vote_avg :: real
  row_vote_cnt :: real

text \<open>
  The metadata table indexed by item id: \<open>it in movies.index\<close> is \<open>movies it \<noteq> None\<close> and
  \<open>movies.loc[it]\<close> is the row, or \<open>KeyError\<close>. Ids are unique in the index.
\<close>

type_synonym movies = "int \<rightharpoonup> item_meta"

text \<open>
  \<open>make_row(uid, item, label, meta)\<close>, a function of four parameters: \<open>None\<close> without
  metadata, else the feature dictionary.
\<close>

definition make_row :: "int \<Rightarrow> int \<Rightarrow> int \<Rightarrow> item_meta option \<Rightarrow> feature_row option" where
  "make_row uid item label meta =
     (case meta of
        None \<Rightarrow> None
      | Some m \<Rightarrow>
          Some \<lparr>row_userId = uid, row_movieId = item, row_label = label,
                row_runtime_z = runtime_z m, row_lang_idx = lang_idx m,
                row_popularity = popularity m, row_vote_avg = vote_average m,
                row_vote_cnt = vote_count m\<rparr>)"

text \<open>
  A call of \<open>make_row\<close> with positional arguments. Python binds the first four to the
  parameters; \<open>extra\<close> are the positional arguments after the fourth, and a call that has
  any raises \<open>TypeError\<close> (takes 4 positional arguments but 5 were given) before the body
  runs. Both call sites in \<open>main\<close> pass a fifth argument: the timestamp, or \<open>None\<close>.
\<close>

definition call_make_row ::
  "int \<Rightarrow> int \<Rightarrow> int \<Rightarrow> item_meta option \<Rightarrow> int option list \<Rightarrow> error + feature_row option" where
  "call_make_row uid item label meta extra =
     (if extra = [] then Inr (make_row uid item label meta) else Inl TypeError)"

text \<open>
  The random generator. \<open>rng.choice(pop_items, 1)\<close> passes no weights: numpy draws one
  index below the size of the array, each index equally likely, and returns the entry at
  that index. The generator is a state \<open>'g\<close> with the function \<open>draw g n\<close> that returns
  the index drawn below \<open>n\<close> and the next state; it is a parameter of the model.
\<close>

type_synonym 'g draw = "'g \<Rightarrow> nat \<Rightarrow> nat \<times> 'g"

definition bounded_draw :: "'g draw \<Rightarrow> bool" where
  "bounded_draw draw \<longleftrightarrow> (\<forall>g n. 0 < n \<longrightarrow> fst (draw g n) < n)"

definition rng_choice :: "'g draw \<Rightarrow> int list \<Rightarrow> 'g \<Rightarrow> int \<times> 'g" where
  "rng_choice draw pop_items g = (let (i, g') = draw g (length pop_items) in (pop_items ! i, g'))"

text \<open>
  The loop of \<open>sample_easy_neg\<close>. It has no bound on the number of draws, so it is a
  partial function: \<open>None\<close> is a loop that never ends. The result carries the output list,
  the \<open>seen\<close> set as mutated, and the generator state.
\<close>

partial_function (option) easy_neg_loop ::
  "'g draw \<Rightarrow> int list \<Rightarrow> int \<Rightarrow> int set \<Rightarrow> int list \<Rightarrow> 'g \<Rightarrow> (int list \<times> int set \<times> 'g) option" where
  "easy_neg_loop draw pop_items n seen out g =
     (if int (length out) < n
      then (let (item, g') = rng_choice draw pop_items g
            in if item \<notin> seen
               then easy_neg_loop draw pop_items n (insert item seen) (out @ [item]) g'
               else easy_neg_loop draw pop_items n seen out g')
      else Some (out, seen, g))"

declare easy_neg_loop.simps [code]

definition sample_easy_neg ::
  "'g draw \<Rightarrow> int set \<Rightarrow> int list \<Rightarrow> int \<Rightarrow> 'g \<Rightarrow> (int list \<times> int set \<times> 'g) option" where
  "sample_easy_neg draw seen pop_items n g =
     (if n = 0 \<or> pop_items = [] then Some ([], seen, g)
      else easy_neg_loop draw pop_items n seen [] g)"

text \<open>
  \<open>ratings["movieId"].value_counts().index.values\<close>: the distinct item ids by descending
  number of ratings (ties in order of first appearance). The counts themselves are dropped.
\<close>

definition pop_items_of :: "interaction list \<Rightarrow> int list" where
  "pop_items_of ratings =
     sort_key (\<lambda>v. - value_count movieId ratings v) (unique (map movieId ratings))"

text \<open>
  The loop over the positives of one user: \<open>pos_rows\<close> collects the rows of the items that
  have metadata.
\<close>

fun pos_loop :: "movies \<Rightarrow> int \<Rightarrow> interaction list \<Rightarrow> feature_row list \<Rightarrow> error + feature_row list" where
  "pos_loop movies uid [] pos_rows = Inr pos_rows"
| "pos_loop movies uid (x # xs) pos_rows =
     (if movies (movieId x) \<noteq> None
      then (case call_make_row uid (movieId x) 1 (movies (movieId x)) [Some (timestamp x)] of
              Inl e \<Rightarrow> Inl e
            | Inr None \<Rightarrow> pos_loop movies uid xs pos_rows
            | Inr (Some r) \<Rightarrow> pos_loop movies uid xs (pos_rows @ [r]))
      else pos_loop movies uid xs pos_rows)"

text \<open>
  Hard negatives: the candidates of the user that are unseen and have metadata, in the
  order of the candidate list, cut to \<open>hard_neg\<close>.
\<close>

definition hard_negatives :: "movies \<Rightarrow> (int \<rightharpoonup> int list) \<Rightarrow> int \<Rightarrow> int set \<Rightarrow> int \<Rightarrow> int list" where
  "hard_negatives movies cand_map uid seen_items hard_neg =
     py_take hard_neg
       (filter (\<lambda>i. i \<notin> seen_items \<and> movies i \<noteq> None)
          (case cand_map uid of None \<Rightarrow> [] | Some cs \<Rightarrow> cs))"

text \<open>
  The negatives of one user: the hard negatives, the easy negatives drawn with a copy of
  \<open>seen_items\<close> as exclusion set and filtered to the items with metadata, and the fallback
  draw of one item when both lists are empty. The result is
  (\<open>hard_neg\<close>, \<open>easy_neg\<close>, generator state).
\<close>

definition sample_negatives ::
  "'g draw \<Rightarrow> movies \<Rightarrow> (int \<rightharpoonup> int list) \<Rightarrow> int list \<Rightarrow> int \<Rightarrow> int \<Rightarrow> int \<Rightarrow> int set \<Rightarrow> 'g
     \<Rightarrow> (int list \<times> int list \<times> 'g) option" where
  "sample_negatives draw movies cand_map pop_items hard_n easy_n uid seen_items g =
     (let hard_neg = hard_negatives movies cand_map uid seen_items hard_n
      in case sample_easy_neg draw seen_items pop_items easy_n g of
           None \<Rightarrow> None
         | Some (easy_neg_ids, _, g1) \<Rightarrow>
             (let easy_neg = filter (\<lambda>i. movies i \<noteq> None) easy_neg_ids
              in if hard_neg = [] \<and> easy_neg = []
                 then (case sample_easy_neg draw seen_items pop_items 1 g1 of
                         None \<Rightarrow> None
                       | Some (fallback, _, g2) \<Rightarrow>
                           Some (hard_neg, filter (\<lambda>i. movies i \<noteq> None) fallback, g2))
                 else Some (hard_neg, easy_neg, g1)))"

text \<open>The loop that builds the label-0 rows; \<open>neg_rows\<close> takes what \<open>make_row\<close> returns.\<close>

fun neg_loop :: "movies \<Rightarrow> int \<Rightarrow> int list \<Rightarrow> feature_row option list \<Rightarrow> error + feature_row option list" where
  "neg_loop movies uid [] neg_rows = Inr neg_rows"
| "neg_loop movies uid (it # its) neg_rows =
     (case movies it of
        None \<Rightarrow> Inl KeyError
      | Some meta \<Rightarrow>
          (case call_make_row uid it 0 (Some meta) [None] of
             Inl e \<Rightarrow> Inl e
           | Inr r \<Rightarrow> neg_loop movies uid its (neg_rows @ [r])))"

text \<open>
  The sampling parameters of a run: the metadata, the candidate lists, the popularity pool
  and the arguments \<open>--hard-neg\<close>, \<open>--easy-neg\<close>, \<open>--pos-thresh\<close>.
\<close>

record params =
  p_movies :: movies
  p_cand_map :: "int \<rightharpoonup> int list"
  p_pop_items :: "int list"
  p_hard_neg :: int
  p_easy_neg :: int
  p_pos_thresh :: int

text \<open>
  The body of the loop over users, for the user \<open>uid\<close> with the rows \<open>grp\<close>. The result is
  the block of rows the user adds to \<open>rows\<close> and the generator state; the empty block is a
  user that is skipped (\<open>continue\<close>), since a block that is written holds a positive row.
\<close>

definition user_block ::
  "'g draw \<Rightarrow> params \<Rightarrow> int \<Rightarrow> interaction list \<Rightarrow> 'g
     \<Rightarrow> (error + (feature_row option list \<times> 'g)) option" where
  "user_block draw p uid grp g =
     (let pos_items = sort_key timestamp (filter (\<lambda>x. real_of_int (p_pos_thresh p) \<le> rating x) grp)
      in if pos_items = [] then Some (Inr ([], g))
         else
           (let seen_items = set (map movieId grp)
            in case pos_loop (p_movies p) uid pos_items [] of
                 Inl e \<Rightarrow> Some (Inl e)
               | Inr pos_rows \<Rightarrow>
                   if pos_rows = [] then Some (Inr ([], g))
                   else
                     (case sample_negatives draw (p_movies p) (p_cand_map p) (p_pop_items p)
                             (p_hard_neg p) (p_easy_neg p) uid seen_items g of
                        None \<Rightarrow> None
                      | Some (hard_neg, easy_neg, g') \<Rightarrow>
                          (case neg_loop (p_movies p) uid (hard_neg @ easy_neg) [] of
                             Inl e \<Rightarrow> Some (Inl e)
                           | Inr neg_rows \<Rightarrow>
                               if neg_rows = [] then Some (Inr ([], g'))
                               else Some (Inr (map Some pos_rows @ neg_rows, g'))))))"

text \<open>
  \<open>ratings.groupby("userId")\<close>: the users in ascending id, each with its rows in table
  order; and the loop over them, which threads \<open>rows\<close>, \<open>kept_users\<close> and the one generator.
\<close>

definition groupby_userId :: "interaction list \<Rightarrow> (int \<times> interaction list) list" where
  "groupby_userId ratings =
     map (\<lambda>u. (u, filter (\<lambda>x. userId x = u) ratings)) (sort (unique (map userId ratings)))"

fun users_loop ::
  "'g draw \<Rightarrow> params \<Rightarrow> (int \<times> interaction list) list \<Rightarrow> feature_row option list \<Rightarrow> nat \<Rightarrow> 'g
     \<Rightarrow> (error + (feature_row option list \<times> nat)) option" where
  "users_loop draw p [] rows kept_users g = Some (Inr (rows, kept_users))"
| "users_loop draw p ((uid, grp) # groups) rows kept_users g =
     (case user_block draw p uid grp g of
        None \<Rightarrow> None
      | Some (Inl e) \<Rightarrow> Some (Inl e)
      | Some (Inr (block, g')) \<Rightarrow>
          if block = [] then users_loop draw p groups rows kept_users g'
          else users_loop draw p groups (rows @ block) (Suc kept_users) g')"

text \<open>
  \<open>main\<close> up to the data frame: \<open>g\<close> is the state of \<open>np.random.default_rng(seed)\<close>. The
  result is the list \<open>rows\<close> and \<open>kept_users\<close>, an exception, or \<open>None\<close> for a run that
  never ends.
\<close>

definition build_features ::
  "'g draw \<Rightarrow> 'g \<Rightarrow> interaction list \<Rightarrow> movies \<Rightarrow> (int \<rightharpoonup> int list) \<Rightarrow> int \<Rightarrow> int \<Rightarrow> int
     \<Rightarrow> (error + (feature_row option list \<times> nat)) option" where
  "build_features draw g ratings movies cand_map hard_n easy_n pos_thresh =
     users_loop draw
       \<lparr>p_movies = movies, p_cand_map = cand_map, p_pop_items = pop_items_of ratings,
        p_hard_neg = hard_n, p_easy_neg = easy_n, p_pos_thresh = pos_thresh\<rparr>
       (groupby_userId ratings) [] 0 g"

text \<open>
  Two small generators to run the model on concrete inputs: the state is a counter (a
  natural number in one, an integer in the other), the index drawn below \<open>n\<close> is the
  counter modulo \<open>n\<close>.
\<close>

definition counter_draw :: "nat draw" where
  "counter_draw g n = (g mod n, Suc g)"



text \<open>A metadata row for concrete inputs.\<close>

definition sample_meta :: item_meta where
  "sample_meta = \<lparr>runtime_z = 0, lang_idx = 1, popularity = 2, vote_average = 3, vote_count = 4\<rparr>"

section \<open>The loops of \<open>main\<close> with the call of \<open>make_row\<close> as a parameter\<close>

text \<open>
  What \<open>main\<close> does after a call of \<open>make_row\<close> has returned can only be stated apart from
  the outcome of that call. Here are the same loops again, translated from the same lines,
  with the outcome of the call expression \<open>make_row(uid, item, label, meta, extra...)\<close> as
  the parameter \<open>call\<close>; with \<open>call_make_row\<close> for it they are the loops above. The loop
  over users returns the generator state as well.
\<close>

type_synonym row_call =
  "int \<Rightarrow> int \<Rightarrow> int \<Rightarrow> item_meta option \<Rightarrow> int option list \<Rightarrow> error + feature_row option"






text \<open>
  A call either raises or returns what the body of \<open>make_row\<close> returns for the first four
  arguments. \<open>call_make_row\<close> is such a call; so is \<open>call_ignoring_extra\<close>, \<open>make_row\<close>
  reached through a wrapper that drops the surplus argument, which lets the loops run past
  the first row.
\<close>

definition returns_make_row :: "row_call \<Rightarrow> bool" where
  "returns_make_row call \<longleftrightarrow>
     (\<forall>uid item label meta extra r.
        call uid item label meta extra = Inr r \<longrightarrow> r = make_row uid item label meta)"







section \<open>Properties of the ranking evaluation\<close>

lemma length_cumsum_from: "length (cumsum_from acc xs) = length xs"
  by (induction xs arbitrary: acc) simp_all

lemma length_cumsum: "length (cumsum xs) = length xs"
  by (simp add: cumsum_def length_cumsum_from)

lemma is_argsort_stable: "is_argsort stable_argsort"
  by (simp add: is_argsort_def stable_argsort_def)

lemma set_ranking: "is_argsort argsort \<Longrightarrow> set (ranking argsort ys) = {0..<length ys}"
  by (simp add: ranking_def is_argsort_def)

lemma distinct_ranking: "is_argsort argsort \<Longrightarrow> distinct (ranking argsort ys)"
  by (simp add: ranking_def is_argsort_def)

lemma length_ranking:
  assumes "is_argsort argsort"
  shows "length (ranking argsort ys) = length ys"
proof -
  have "length (ranking argsort ys) = card (set (ranking argsort ys))"
    using distinct_ranking [OF assms] by (simp add: distinct_card)
  then show ?thesis
    by (simp add: set_ranking [OF assms])
qed

lemma sorted_ranking:
  "is_argsort argsort \<Longrightarrow> sorted (rev (map (\<lambda>i. ys ! i) (ranking argsort ys)))"
  by (simp add: ranking_def is_argsort_def rev_map)

text \<open>
  Whenever a group has more than one row but fewer than \<open>k\<close>, and one of its positives is
  ranked at all, the MAP branch divides an array of the group's length by one of length
  \<open>k\<close> and numpy refuses to broadcast them.
\<close>

lemma group_metrics_short_group:
  assumes "length y_true = length y_pred" and "1 < length y_true"
    and "int (length y_true) < k"
    and "sum_list y_true \<noteq> 0"
    and "sum_list (map (\<lambda>i. y_true ! i) (ranking argsort y_pred)) \<noteq> 0"
    and srt: "is_argsort argsort"
  shows "group_metrics argsort k y_true y_pred = Inl ValueError"
proof -
  note len = length_ranking [OF srt, of y_pred]
  have tk: "topk argsort k y_pred = ranking argsort y_pred"
    using assms(1,3) by (simp add: topk_def py_take_def len)
  have nk: "length y_pred < nat k" "nat k \<noteq> Suc 0"
    using assms(1,2,3) by linarith+
  have "map_at_k k y_true (map (\<lambda>i. y_true ! i) (ranking argsort y_pred)) = Inl ValueError"
    using assms(1-5) nk
    by (simp add: map_at_k_def broadcast2_def length_cumsum len np_arange_def)
  then show ?thesis
    using assms(4) by (simp add: group_metrics_def tk)
qed


lemma ranking_best_first:
  assumes p: "p < length ys" and best: "\<forall>i < length ys. i \<noteq> p \<longrightarrow> ys ! i < ys ! p"
    and srt: "is_argsort argsort"
  shows "\<exists>rest. ranking argsort ys = p # rest \<and> p \<notin> set rest \<and> length rest = length ys - 1
           \<and> set rest \<subseteq> {0..<length ys}"
proof -
  have ne: "ranking argsort ys \<noteq> []"
    using p length_ranking [OF srt, of ys] by auto
  then obtain h rest where r: "ranking argsort ys = h # rest"
    by (cases "ranking argsort ys") auto
  have "sorted (rev (map (\<lambda>i. ys ! i) (ranking argsort ys)))"
    by (rule sorted_ranking [OF srt])
  then have ge: "\<forall>j \<in> set rest. ys ! j \<le> ys ! h"
    by (simp add: r sorted_append)
  have mem: "set (h # rest) = {0..<length ys}"
    using set_ranking [OF srt, of ys] r by simp
  have "h = p"
  proof (rule ccontr)
    assume "h \<noteq> p"
    moreover have "h < length ys" using mem by auto
    ultimately have "ys ! h < ys ! p" using best by simp
    moreover have "p \<in> set rest" using mem p \<open>h \<noteq> p\<close> by auto
    ultimately show False using ge by fastforce
  qed
  moreover have "distinct (h # rest)"
    using distinct_ranking [OF srt, of ys] r by simp
  moreover have "length (h # rest) = length ys"
    using length_ranking [OF srt, of ys] r by simp
  ultimately show ?thesis
    using r mem by auto
qed

lemma cumsum_from_zeros: "cumsum_from a (replicate m 0) = replicate m a"
  by (induction m) simp_all

lemma sum_map2_zeros_right:
  "sum_list (map2 (\<lambda>q h. q * real_of_int h) qs (replicate m 0)) = 0"
proof (induction m arbitrary: qs)
  case 0
  then show ?case by simp
next
  case (Suc m)
  then show ?case by (cases qs) simp_all
qed

lemma sum_map2_zeros_left:
  "sum_list (map2 (\<lambda>r d. real_of_int r / g d) (replicate m 0) ds) = 0"
proof (induction m arbitrary: ds)
  case 0
  then show ?case by simp
next
  case (Suc m)
  then show ?case by (cases ds) simp_all
qed

lemma dcg_top_hit: "dcg (1 # replicate m 0) = 1"
proof -
  have eq: "[2..<Suc m + 2] = 2 # [Suc 2..<Suc m + 2]"
    by (rule upt_conv_Cons) simp
  have "dcg (1 # replicate m 0)
      = sum_list (map2 (\<lambda>r d. real_of_int r / log 2 (real d)) (1 # replicate m 0)
          (2 # [Suc 2..<Suc m + 2]))"
    by (simp only: dcg_def length_Cons length_replicate eq)
  also have "\<dots> = 1 / log 2 2
      + sum_list (map2 (\<lambda>r d. real_of_int r / log 2 (real d)) (replicate m 0) [Suc 2..<Suc m + 2])"
    by simp
  also have "\<dots> = 1"
    by (simp only: sum_map2_zeros_left) simp
  finally show ?thesis .
qed

lemma map_at_k_top_hit:
  assumes "nat k = Suc m" and "sum_list y_true = 1"
  shows "map_at_k k y_true (1 # replicate m 0) = Inr 1"
proof -
  have "[0..<Suc m] = 0 # [Suc 0..<Suc m]"
    by (rule upt_conv_Cons) simp
  then have ar: "map (\<lambda>i. i + 1) (np_arange k) = 1 # map (\<lambda>i. int i + 1) [Suc 0..<Suc m]"
    using assms(1) by (simp add: np_arange_def)
  have cs: "cumsum (1 # replicate m 0) = 1 # replicate m 1"
    by (simp add: cumsum_def cumsum_from_zeros)
  have k: "1 \<le> k" using assms(1) by linarith
  have nz: "sum_list (1 # replicate m (0::int)) \<noteq> 0"
    by (simp add: sum_list_replicate)
  have len: "length (cumsum (1 # replicate m 0)) = length (map (\<lambda>i. i + 1) (np_arange k))"
    using assms(1) by (simp add: length_cumsum np_arange_def)
  have "map_at_k k y_true (1 # replicate m 0)
      = Inr (sum_list (map2 (\<lambda>q h. q * real_of_int h)
               (map2 (\<lambda>c d. real_of_int c / real_of_int d) (1 # replicate m 1)
                  (1 # map (\<lambda>i. int i + 1) [Suc 0..<Suc m]))
               (1 # replicate m 0)) / real_of_int (min (sum_list y_true) k))"
    unfolding map_at_k_def using nz len
    by (simp add: broadcast2_def cs ar del: upt_Suc)
  also have "\<dots> = Inr 1"
    using k assms(2) by (simp add: sum_map2_zeros_right del: upt_Suc)
  finally show ?thesis .
qed

lemma insort_zero: "insort (0::int) (replicate m 0 @ [1]) = replicate (Suc m) 0 @ [1]"
  by (cases m) simp_all

lemma insort_one_zeros: "insort (1::int) (replicate m 0) = replicate m 0 @ [1]"
  by (induction m) simp_all

lemma sort_single_one: "sort (replicate p 0 @ 1 # replicate q (0::int)) = replicate (p + q) 0 @ [1]"
proof (induction p)
  case 0
  have "sort (replicate q (0::int)) = replicate q 0"
    by (rule sort_key_id_if_sorted) simp
  then show ?case by (simp add: insort_one_zeros)
next
  case (Suc p)
  have "sort (replicate (Suc p) 0 @ 1 # replicate q (0::int))
      = insort 0 (sort (replicate p 0 @ 1 # replicate q 0))"
    by simp
  also have "\<dots> = insort 0 (replicate (p + q) 0 @ [1])"
    by (simp only: Suc)
  also have "\<dots> = replicate (Suc (p + q)) 0 @ [1]"
    by (rule insort_zero)
  finally show ?case by simp
qed

lemma nth_single_one:
  "j < p + Suc q \<Longrightarrow> (replicate p 0 @ 1 # replicate q (0::int)) ! j = (if j = p then 1 else 0)"
  by (auto simp: nth_append nth_Cons')

text \<open>
  A group with one positive row, at position \<open>p\<close>, whose score is strictly the highest,
  and with at least \<open>k\<close> rows: MAP@k and NDCG@k are both 1.
\<close>

lemma group_metrics_single_positive:
  assumes labels: "y_true = replicate p 0 @ 1 # replicate q 0"
    and len: "length y_pred = length y_true"
    and best: "\<forall>i < length y_pred. i \<noteq> p \<longrightarrow> y_pred ! i < y_pred ! p"
    and k: "1 \<le> k" "k \<le> int (length y_true)"
    and srt: "is_argsort argsort"
  shows "group_metrics argsort k y_true y_pred = Inr (1, 1)"
proof -
  have n: "length y_true = p + Suc q" using labels by simp
  have sum: "sum_list y_true = 1" using labels by (simp add: sum_list_replicate)
  obtain m where m: "nat k = Suc m" using k(1) by (cases "nat k") auto
  have mq: "m \<le> p + q" using k(2) m n by linarith
  from ranking_best_first [of p y_pred argsort] best len n srt
  obtain rest where r: "ranking argsort y_pred = p # rest" "p \<notin> set rest"
      "length rest = p + q" "set rest \<subseteq> {0..<p + Suc q}"
    by auto
  have tk: "topk argsort k y_pred = p # take m rest"
    using k(1) m by (simp add: topk_def py_take_def r(1))
  have zero: "y_true ! j = 0" if "j \<in> set (take m rest)" for j
  proof -
    from that have "j \<in> set rest" by (rule in_set_takeD)
    then have "j \<noteq> p" "j < p + Suc q" using r(2,4) by auto
    then show ?thesis by (simp add: labels nth_single_one)
  qed
  have "map (\<lambda>i. y_true ! i) (take m rest) = map (\<lambda>_. 0) (take m rest)"
    by (rule map_cong) (simp_all add: zero)
  also have "\<dots> = replicate m 0"
    using mq r(3) by (simp add: map_replicate_const)
  finally have hits: "map (\<lambda>i. y_true ! i) (topk argsort k y_pred) = 1 # replicate m 0"
    by (simp add: tk labels nth_single_one)
  have ideal: "py_take k (rev (sort y_true)) = 1 # replicate m 0"
    using k(1) m mq by (simp add: py_take_def labels sort_single_one)
  have "ndcg_at_k k y_true (1 # replicate m 0) = 1"
    by (simp add: ndcg_at_k_def ideal dcg_top_hit)
  then show ?thesis
    using sum by (simp add: group_metrics_def hits map_at_k_top_hit [OF m sum])
qed

text \<open>The same group with more than one and fewer than \<open>k\<close> rows: the evaluation raises.\<close>

lemma group_metrics_single_positive_short:
  assumes labels: "y_true = replicate p 0 @ 1 # replicate q 0"
    and len: "length y_pred = length y_true"
    and best: "\<forall>i < length y_pred. i \<noteq> p \<longrightarrow> y_pred ! i < y_pred ! p"
    and k: "int (length y_true) < k" and two: "1 < length y_true"
    and srt: "is_argsort argsort"
  shows "group_metrics argsort k y_true y_pred = Inl ValueError"
proof -
  have sum: "sum_list y_true = 1" using labels by (simp add: sum_list_replicate)
  from ranking_best_first [of p y_pred argsort] best len labels srt
  obtain rest where r: "ranking argsort y_pred = p # rest" "p \<notin> set rest"
      "set rest \<subseteq> {0..<p + Suc q}"
    by auto
  have "map (\<lambda>i. y_true ! i) rest = map (\<lambda>_. 0) rest"
  proof (rule map_cong)
    fix j assume "j \<in> set rest"
    then have "j \<noteq> p" "j < p + Suc q" using r(2,3) by auto
    then show "y_true ! j = 0" by (simp add: labels nth_single_one)
  qed simp
  then have "sum_list (map (\<lambda>i. y_true ! i) (ranking argsort y_pred)) = 1"
    by (simp add: r(1) labels nth_single_one map_replicate_const sum_list_replicate)
  with group_metrics_short_group [of y_true y_pred k argsort] len k two sum srt show ?thesis
    by simp
qed

text \<open>
  C1. A group with exactly one positive row whose score is strictly the highest should get
  MAP@k = NDCG@k = 1.0, also when the group has fewer than \<open>k\<close> rows. On the
  specification's own scenario, a group of three rows evaluated at \<open>k = 10\<close>, the code
  raises \<open>ValueError\<close> instead, whatever order the sort gives to ties: \<open>cumsum\<close> has three
  entries and \<open>np.arange(k) + 1\<close> has ten. With \<open>k = 3\<close> the same group gets (1, 1).
\<close>

theorem eval_metrics_single_positive_short_group:
  assumes "is_argsort argsort"
  shows "group_metrics argsort 10 [1, 0, 0] [9 / 10, 5 / 10, 1 / 10] = Inl ValueError
   \<and> eval_metrics argsort [(1, 1, 9 / 10), (1, 0, 5 / 10), (1, 0, 1 / 10)] 10 = Inl ValueError
   \<and> group_metrics argsort 3 [1, 0, 0] [9 / 10, 5 / 10, 1 / 10] = Inr (1, 1)"
proof -
  have labels: "[1, 0, 0] = replicate 0 0 @ 1 # replicate 2 (0::int)"
    by (simp add: numeral_2_eq_2)
  have best: "\<forall>i < length [9 / 10, 5 / 10, 1 / 10 :: real]. i \<noteq> 0
      \<longrightarrow> [9 / 10, 5 / 10, 1 / 10 :: real] ! i < [9 / 10, 5 / 10, 1 / 10] ! 0"
    by (simp add: nth_Cons' less_Suc_eq)
  have short: "group_metrics argsort 10 [1, 0, 0] [9 / 10, 5 / 10, 1 / 10] = Inl ValueError"
    by (rule group_metrics_single_positive_short [OF labels _ best _ _ assms]) simp_all
  have full: "group_metrics argsort 3 [1, 0, 0] [9 / 10, 5 / 10, 1 / 10] = Inr (1, 1)"
    by (rule group_metrics_single_positive [OF labels _ best _ _ assms]) simp_all
  have "groupby_user [(1, 1, 9 / 10), (1, 0, 5 / 10), (1, 0, 1 / 10)]
      = [([1, 0, 0], [9 / 10, 5 / 10, 1 / 10])]"
    by (simp add: groupby_user_def)
  then have "eval_metrics argsort [(1, 1, 9 / 10), (1, 0, 5 / 10), (1, 0, 1 / 10)] 10
      = Inl ValueError"
    using short by (simp add: eval_metrics_def)
  with short full show ?thesis by simp
qed

theorem eval_metrics_single_positive_short_group_witness:
  "is_argsort stable_argsort
   \<and> group_metrics stable_argsort 10 [1, 0, 0] [9 / 10, 5 / 10, 1 / 10] = Inl ValueError
   \<and> eval_metrics stable_argsort [(1, 1, 9 / 10), (1, 0, 5 / 10), (1, 0, 1 / 10)] 10
       = Inl ValueError
   \<and> group_metrics stable_argsort 3 [1, 0, 0] [9 / 10, 5 / 10, 1 / 10] = Inr (1, 1)"
  using eval_metrics_single_positive_short_group [OF is_argsort_stable] is_argsort_stable
  by simp

text \<open>
  C6, as stated: ties are broken by a stable sort on (negated score, row order), the earlier
  row first. The code asks for no stable sort; with a sort that it admits, two rows of the
  same score are ranked the other way round.
\<close>

theorem ranking_ties_counterexample:
  "is_argsort stable_argsort
   \<and> topk stable_argsort 10 [1 / 2, 1 / 2] = [1, 0]
   \<and> topk stable_argsort 10 [1 / 2, 1 / 2] \<noteq> py_take 10 (stable_desc_order [1 / 2, 1 / 2])"
  by (simp add: is_argsort_stable)
     (simp add: topk_def ranking_def stable_argsort_def stable_desc_order_def py_take_def upt_rec)

lemma desc_order_unique:
  assumes "distinct ys"
    and "distinct xs" and "set xs = {0..<length ys}" and "sorted (rev (map (\<lambda>i. ys ! i) xs))"
  shows "xs = stable_desc_order ys"
proof -
  let ?f = "\<lambda>i. - (ys ! i)"
  let ?s = "stable_desc_order ys"
  have inj: "inj_on ?f {0..<length ys}"
    using assms(1) by (auto simp: inj_on_def nth_eq_iff_index_eq)
  have s: "distinct ?s" "set ?s = {0..<length ys}" "sorted (map ?f ?s)"
    by (simp_all add: stable_desc_order_def)
  have "sorted (map ?f xs)"
  proof -
    have "map ?f xs = map uminus (map (\<lambda>i. ys ! i) xs)" by simp
    also have "sorted \<dots>"
      using assms(4) by (simp add: sorted_wrt_rev sorted_map sorted_wrt_map)
    finally show ?thesis .
  qed
  moreover have "distinct (map ?f xs)" "distinct (map ?f ?s)"
    using inj assms(2,3) s(1,2) by (simp_all add: distinct_map)
  moreover have "set (map ?f xs) = set (map ?f ?s)"
    using assms(3) s(2) by simp
  ultimately have "map ?f xs = map ?f ?s"
    using s(3) by (intro sorted_distinct_set_unique)
  moreover have "inj_on ?f (set xs \<union> set ?s)"
    using inj assms(3) s(2) by simp
  ultimately show ?thesis
    by (simp add: inj_on_map_eq_map)
qed

text \<open>
  C6, amended: the ranking is the reversed ascending argsort of the scores. It is a
  permutation of the rows with non-increasing score, and \<open>topk\<close> is its prefix of \<open>k\<close>
  entries. When no two rows of the group have the same score, it is the order of the stable
  sort on (negated score, row order). The order among rows of equal score is left to the
  sort and is not fixed by the code.
\<close>

theorem ranking_reversed_argsort:
  assumes "is_argsort argsort"
  shows "sorted (rev (map (\<lambda>i. ys ! i) (ranking argsort ys)))
   \<and> set (ranking argsort ys) = {0..<length ys} \<and> distinct (ranking argsort ys)
   \<and> topk argsort k ys = py_take k (ranking argsort ys)
   \<and> (distinct ys \<longrightarrow> ranking argsort ys = stable_desc_order ys)"
proof -
  note r = sorted_ranking [OF assms, of ys] set_ranking [OF assms, of ys]
    distinct_ranking [OF assms, of ys]
  have "ranking argsort ys = stable_desc_order ys" if "distinct ys"
    by (rule desc_order_unique [OF that r(3) r(2) r(1)])
  then show ?thesis
    using r by (simp add: topk_def)
qed

theorem ranking_reversed_argsort_witness:
  "is_argsort stable_argsort
   \<and> distinct [3 / 10, 9 / 10, 5 / 10 :: real]
   \<and> ranking stable_argsort [3 / 10, 9 / 10, 5 / 10] = [1, 2, 0]
   \<and> stable_desc_order [3 / 10, 9 / 10, 5 / 10] = [1, 2, 0]
   \<and> topk stable_argsort 2 [3 / 10, 9 / 10, 5 / 10] = [1, 2]
   \<and> sorted (rev (map (\<lambda>i. [3 / 10, 9 / 10, 5 / 10 :: real] ! i) [1, 2, 0]))"
proof -
  have d: "distinct [3 / 10, 9 / 10, 5 / 10 :: real]" by simp
  have s: "stable_desc_order [3 / 10, 9 / 10, 5 / 10] = [1, 2, 0]"
    by (simp add: stable_desc_order_def upt_rec)
  from ranking_reversed_argsort [OF is_argsort_stable, of "[3 / 10, 9 / 10, 5 / 10]" 2] d s
  have "ranking stable_argsort [3 / 10, 9 / 10, 5 / 10] = [1, 2, 0]"
    and "topk stable_argsort 2 [3 / 10, 9 / 10, 5 / 10] = [1, 2]"
    and "sorted (rev (map (\<lambda>i. [3 / 10, 9 / 10, 5 / 10 :: real] ! i) [1, 2, 0]))"
    by (simp_all add: py_take_def)
  with d s is_argsort_stable show ?thesis by simp
qed


section \<open>Properties of the confidence matrix\<close>

lemma set_unique_from: "set (unique_from seen xs) = set xs - set seen"
  by (induction seen xs rule: unique_from.induct) auto

lemma distinct_unique_from: "distinct (unique_from seen xs)"
  by (induction seen xs rule: unique_from.induct) (auto simp: set_unique_from)

lemma set_unique: "set (unique xs) = set xs"
  by (simp add: unique_def set_unique_from)

lemma distinct_unique: "distinct (unique xs)"
  by (simp add: unique_def distinct_unique_from)

lemma update_fresh: "k \<notin> fst ` set d \<Longrightarrow> AList.update k v d = d @ [(k, v)]"
  by (induction d) auto

lemma enumerate_dict_distinct:
  assumes "distinct xs"
  shows "enumerate_dict xs = zip xs [0..<length xs]"
  using assms
proof (induction xs rule: rev_induct)
  case Nil
  then show ?case by (simp add: enumerate_dict_def)
next
  case (snoc x xs)
  then have ih: "enumerate_dict xs = zip xs [0..<length xs]" and fresh: "x \<notin> set xs"
    by simp_all
  have "x \<notin> fst ` set (zip xs [0..<length xs])"
    using fresh by (auto dest: set_zip_leftD)
  then have "AList.update x (length xs) (zip xs [0..<length xs])
      = zip xs [0..<length xs] @ [(x, length xs)]"
    by (rule update_fresh)
  moreover have "enumerate_dict (xs @ [x]) = AList.update x (length xs) (enumerate_dict xs)"
    by (simp add: enumerate_dict_def enumerate_append_eq)
  ultimately show ?case
    by (simp add: ih)
qed

lemma enumerate_dict_lookup:
  assumes "distinct xs" and "k \<in> set xs"
  shows "\<exists>i < length (enumerate_dict xs). map_of (enumerate_dict xs) k = Some i"
proof -
  from assms(2) obtain i where i: "i < length xs" "xs ! i = k"
    by (auto simp: in_set_conv_nth)
  have "map_of (zip xs [0..<length xs]) (xs ! i) = Some ([0..<length xs] ! i)"
    using assms(1) i(1) by (intro map_of_zip_nth) simp_all
  then show ?thesis
    using i assms(1) by (auto simp: enumerate_dict_distinct)
qed

lemma enumerate_dict_bound:
  assumes "distinct xs" and "map_of (enumerate_dict xs) k = Some i"
  shows "i < length (enumerate_dict xs)"
proof -
  have "map_of (zip xs [0..<length xs]) k = Some i"
    using assms by (simp add: enumerate_dict_distinct)
  then have "(k, i) \<in> set (zip xs [0..<length xs])"
    by (rule map_of_SomeD)
  then have "i \<in> set [0..<length xs]"
    by (rule set_zip_rightD)
  then show ?thesis
    using assms(1) by (simp add: enumerate_dict_distinct)
qed

lemma map_get_int32_total:
  assumes "\<forall>k \<in> set ks. map_of d k \<noteq> None"
  shows "map_get_int32 d ks = Inr (map (\<lambda>k. the (map_of d k)) ks)"
  using assms by (induction ks) auto

lemma sum_entries:
  "sum_list (map (\<lambda>e. snd (snd e))
      (filter (\<lambda>e. fst e = r \<and> fst (snd e) = c) (zip (map f xs) (zip (map g xs) (map h xs)))))
   = sum_list (map h (filter (\<lambda>x. f x = r \<and> g x = c) xs))"
  by (induction xs) simp_all

lemma build_confidence_total:
  assumes u: "\<forall>x \<in> set ratings. \<exists>i < length user2row. map_of user2row (userId x) = Some i"
    and m: "\<forall>x \<in> set ratings. \<exists>j < length item2col. map_of item2col (movieId x) = Some j"
  shows "build_confidence ratings user2row item2col alpha =
     Inr \<lparr>entries = zip (map (\<lambda>x. the (map_of user2row (userId x))) ratings)
                      (zip (map (\<lambda>x. the (map_of item2col (movieId x))) ratings)
                           (map (\<lambda>x. 1 + alpha * rating x) ratings)),
          shape = (length user2row, length item2col)\<rparr>"
proof -
  have 1: "map_get_int32 user2row (map userId ratings)
      = Inr (map (\<lambda>x. the (map_of user2row (userId x))) ratings)"
    using u by (subst map_get_int32_total) (auto simp: comp_def)
  have 2: "map_get_int32 item2col (map movieId ratings)
      = Inr (map (\<lambda>x. the (map_of item2col (movieId x))) ratings)"
    using m by (subst map_get_int32_total) (auto simp: comp_def)
  have 3: "\<forall>x \<in> set ratings. the (map_of user2row (userId x)) < length user2row"
    using u by fastforce
  have 4: "\<forall>x \<in> set ratings. the (map_of item2col (movieId x)) < length item2col"
    using m by fastforce
  show ?thesis
    using 3 4 by (simp add: build_confidence_def 1 2 coo_matrix_of_def list_all_iff)
qed

lemma kept_ratings_items: "x \<in> set (kept_ratings mu mi ids raw) \<Longrightarrow> movieId x \<in> set ids"
  by (simp add: kept_ratings_def)

lemma confidence_main_built:
  defines "cm \<equiv> confidence_main"
  shows "cm mu mi alpha ids raw =
     (let kept = kept_ratings mu mi (all_item_ids ids) raw;
          u2r = user2row_of kept; i2c = item2col_of ids
      in Inr \<lparr>entries = zip (map (\<lambda>x. the (map_of u2r (userId x))) kept)
                      (zip (map (\<lambda>x. the (map_of i2c (movieId x))) kept)
                           (map (\<lambda>x. 1 + alpha * rating x) kept)),
          shape = (length u2r, length i2c)\<rparr>)"
proof -
  let ?kept = "kept_ratings mu mi (all_item_ids ids) raw"
  have u: "\<forall>x \<in> set ?kept. \<exists>i < length (user2row_of ?kept).
      map_of (user2row_of ?kept) (userId x) = Some i"
    unfolding user2row_of_def
    by (intro ballI enumerate_dict_lookup) (simp_all add: distinct_unique set_unique)
  have m: "\<forall>x \<in> set ?kept. \<exists>j < length (item2col_of ids).
      map_of (item2col_of ids) (movieId x) = Some j"
    unfolding item2col_of_def all_item_ids_def
    by (intro ballI enumerate_dict_lookup)
       (auto simp: distinct_unique dest: kept_ratings_items simp: all_item_ids_def)
  show ?thesis
    unfolding cm_def confidence_main_def Let_def
    by (rule build_confidence_total [OF u m])
qed

text \<open>
  C7. In the matrix handed to the factorization, the cell at (row, col) is the sum of
  \<open>1 + alpha * rating\<close> over the kept interactions that the index maps send to that
  coordinate, duplicates added up, and a coordinate that no kept interaction is sent to
  holds zero. The construction never raises: every kept interaction has a row and a column.
\<close>

theorem confidence_matrix_cells:
  assumes "kept = kept_ratings mu mi (all_item_ids ids) raw"
    and "u2r = user2row_of kept" and "i2c = item2col_of ids"
  shows "\<exists>C. confidence_main mu mi alpha ids raw = Inr C
     \<and> shape C = (length u2r, length i2c)
     \<and> (\<forall>r c. tocsr C r c =
           sum_list (map (\<lambda>x. 1 + alpha * rating x)
             (filter (\<lambda>x. map_of u2r (userId x) = Some r \<and> map_of i2c (movieId x) = Some c) kept)))
     \<and> (\<forall>r c. (\<forall>x \<in> set kept. map_of u2r (userId x) \<noteq> Some r \<or> map_of i2c (movieId x) \<noteq> Some c)
           \<longrightarrow> tocsr C r c = 0)"
proof -
  let ?C = "\<lparr>entries = zip (map (\<lambda>x. the (map_of u2r (userId x))) kept)
                      (zip (map (\<lambda>x. the (map_of i2c (movieId x))) kept)
                           (map (\<lambda>x. 1 + alpha * rating x) kept)),
          shape = (length u2r, length i2c)\<rparr>"
  have C: "confidence_main mu mi alpha ids raw = Inr ?C"
    using assms by (simp add: confidence_main_built Let_def)
  have some_u: "\<forall>x \<in> set kept. map_of u2r (userId x) \<noteq> None"
    unfolding assms(2) user2row_of_def
    using enumerate_dict_lookup [OF distinct_unique, of _ "map userId kept"]
    by (fastforce simp: set_unique)
  have some_i: "\<forall>x \<in> set kept. map_of i2c (movieId x) \<noteq> None"
    unfolding assms(3) item2col_of_def all_item_ids_def
    using enumerate_dict_lookup [OF distinct_unique, of _ ids] kept_ratings_items
    by (fastforce simp: set_unique assms(1) all_item_ids_def)
  have flt: "filter (\<lambda>x. the (map_of u2r (userId x)) = r \<and> the (map_of i2c (movieId x)) = c) kept
      = filter (\<lambda>x. map_of u2r (userId x) = Some r \<and> map_of i2c (movieId x) = Some c) kept" for r c
    using some_u some_i by (intro filter_cong) auto
  have cells: "tocsr ?C r c = sum_list (map (\<lambda>x. 1 + alpha * rating x)
      (filter (\<lambda>x. map_of u2r (userId x) = Some r \<and> map_of i2c (movieId x) = Some c) kept))" for r c
    by (simp add: tocsr_def sum_entries flt)
  have zero: "tocsr ?C r c = 0"
    if "\<forall>x \<in> set kept. map_of u2r (userId x) \<noteq> Some r \<or> map_of i2c (movieId x) \<noteq> Some c" for r c
  proof -
    have "filter (\<lambda>x. map_of u2r (userId x) = Some r \<and> map_of i2c (movieId x) = Some c) kept = []"
      using that by (auto simp: filter_empty_conv)
    then show ?thesis by (simp add: cells)
  qed
  show ?thesis
    using C cells zero by (intro exI [of _ ?C]) simp
qed


theorem confidence_matrix_cells_witness:
  "\<exists>C. confidence_main 0 0 40 [10, 11]
        [\<lparr>userId = 7, movieId = 10, rating = 5, timestamp = 0\<rparr>,
         \<lparr>userId = 7, movieId = 10, rating = 3, timestamp = 1\<rparr>,
         \<lparr>userId = 8, movieId = 11, rating = 4, timestamp = 2\<rparr>] = Inr C
     \<and> shape C = (2, 2) \<and> tocsr C 0 0 = 322 \<and> tocsr C 1 1 = 161 \<and> tocsr C 1 0 = 0"
proof -
  let ?raw = "[\<lparr>userId = 7, movieId = 10, rating = 5, timestamp = 0\<rparr>,
         \<lparr>userId = 7, movieId = 10, rating = 3, timestamp = 1\<rparr>,
         \<lparr>userId = 8, movieId = 11, rating = 4, timestamp = 2\<rparr>]"
  have kept: "kept_ratings 0 0 (all_item_ids [10, 11]) ?raw = ?raw"
    by (simp add: kept_ratings_def prune_users_def prune_items_def all_item_ids_def unique_def)
  have u2r: "user2row_of ?raw = [(7, 0), (8, 1)]"
    by (simp add: user2row_of_def enumerate_dict_def unique_def)
  have i2c: "item2col_of [10, 11] = [(10, 0), (11, 1)]"
    by (simp add: item2col_of_def all_item_ids_def enumerate_dict_def unique_def)
  from confidence_matrix_cells [OF kept [symmetric] u2r [symmetric] i2c [symmetric], of 40]
  obtain C where C: "confidence_main 0 0 40 [10, 11] ?raw = Inr C"
    and sh: "shape C = (length [(7::int, 0::nat), (8, 1)], length [(10::int, 0::nat), (11, 1)])"
    and cells: "\<And>r c. tocsr C r c =
           sum_list (map (\<lambda>x. 1 + 40 * rating x)
             (filter (\<lambda>x. map_of [(7, 0), (8, 1)] (userId x) = Some r
                \<and> map_of [(10, 0), (11, 1)] (movieId x) = Some c) ?raw))"
    and zero: "\<And>r c. (\<forall>x \<in> set ?raw. map_of [(7, 0), (8, 1)] (userId x) \<noteq> Some r
                \<or> map_of [(10, 0), (11, 1)] (movieId x) \<noteq> Some c) \<Longrightarrow> tocsr C r c = 0"
    by blast
  have "tocsr C 0 0 = 322" by (simp add: cells)
  moreover have "tocsr C 1 1 = 161" by (simp add: cells)
  moreover have "tocsr C 1 0 = 0" by (rule zero) simp
  ultimately show ?thesis using C sh by simp
qed

lemma value_count_pos: "x \<in> set xs \<Longrightarrow> 1 \<le> value_count col xs (col x)"
proof -
  assume "x \<in> set xs"
  then have "filter (\<lambda>y. col y = col x) xs \<noteq> []"
    by (auto simp: filter_empty_conv)
  then have "0 < length (filter (\<lambda>y. col y = col x) xs)"
    by simp
  then show ?thesis
    unfolding value_count_def by linarith
qed

lemma prune_users_filter:
  "prune_users mu raw = filter (\<lambda>x. mu \<le> value_count userId raw (userId x)) raw"
proof (cases "0 < mu")
  case True
  then show ?thesis by (simp add: prune_users_def)
next
  case False
  have "filter (\<lambda>x. mu \<le> value_count userId raw (userId x)) raw = raw"
    using False value_count_pos [of _ raw userId] by (fastforce simp: filter_id_conv)
  with False show ?thesis by (simp add: prune_users_def)
qed

lemma prune_items_filter:
  "prune_items mi xs = filter (\<lambda>x. mi \<le> value_count movieId xs (movieId x)) xs"
proof (cases "0 < mi")
  case True
  then show ?thesis by (simp add: prune_items_def)
next
  case False
  have "filter (\<lambda>x. mi \<le> value_count movieId xs (movieId x)) xs = xs"
    using False value_count_pos [of _ xs movieId] by (fastforce simp: filter_id_conv)
  with False show ?thesis by (simp add: prune_items_def)
qed

text \<open>
  C8, as stated: both counts are taken on the raw table. With both thresholds at 2, user 1
  has one raw interaction and user 2 has two; item 10 has two raw interactions, but only one
  of them is left when the items are counted, so the code drops the interaction (2, 10)
  that the stated rule keeps.
\<close>

theorem pruning_counterexample:
  "kept_ratings 2 2 [10, 11]
      [\<lparr>userId = 1, movieId = 10, rating = 5, timestamp = 0\<rparr>,
       \<lparr>userId = 2, movieId = 10, rating = 4, timestamp = 1\<rparr>,
       \<lparr>userId = 2, movieId = 11, rating = 3, timestamp = 2\<rparr>] = []
   \<and> spec_pruned 2 2
      [\<lparr>userId = 1, movieId = 10, rating = 5, timestamp = 0\<rparr>,
       \<lparr>userId = 2, movieId = 10, rating = 4, timestamp = 1\<rparr>,
       \<lparr>userId = 2, movieId = 11, rating = 3, timestamp = 2\<rparr>]
     = [\<lparr>userId = 2, movieId = 10, rating = 4, timestamp = 1\<rparr>]"
  by (simp add: kept_ratings_def prune_users_def prune_items_def spec_pruned_def value_count_def)

text \<open>
  C8, amended: an interaction is kept exactly when its user has at least \<open>min_user_cnt\<close>
  interactions in the raw table, its item has at least \<open>min_item_cnt\<close> interactions in the
  table left by the user filter, and its item is in the metadata index. The filters run
  once, in this order, and the dense rows are numbered afterwards, over the kept users in
  order of first appearance.
\<close>

theorem pruning_sequential:
  "kept_ratings mu mi ids raw =
     filter (\<lambda>x. mu \<le> value_count userId raw (userId x)
               \<and> mi \<le> value_count movieId (prune_users mu raw) (movieId x)
               \<and> movieId x \<in> set ids) raw
   \<and> prune_users mu raw = filter (\<lambda>x. mu \<le> value_count userId raw (userId x)) raw
   \<and> user2row_of (kept_ratings mu mi ids raw)
       = zip (unique (map userId (kept_ratings mu mi ids raw)))
             [0..<length (unique (map userId (kept_ratings mu mi ids raw)))]"
proof -
  have "kept_ratings mu mi ids raw =
     filter (\<lambda>x. movieId x \<in> set ids)
       (filter (\<lambda>x. mi \<le> value_count movieId (prune_users mu raw) (movieId x))
         (filter (\<lambda>x. mu \<le> value_count userId raw (userId x)) raw))"
    unfolding kept_ratings_def prune_items_filter [of mi "prune_users mu raw"]
    by (simp add: prune_users_filter [symmetric])
  also have "\<dots> = filter (\<lambda>x. mu \<le> value_count userId raw (userId x)
               \<and> mi \<le> value_count movieId (prune_users mu raw) (movieId x)
               \<and> movieId x \<in> set ids) raw"
    by (simp add: conj_commute conj_left_commute)
  finally show ?thesis
    by (simp add: prune_users_filter [symmetric] user2row_of_def enumerate_dict_distinct distinct_unique)
qed

text \<open>
  The filters are not run again on their own result: a user can end below the threshold.
\<close>

lemma pruning_not_iterated:
  "kept_ratings 2 2 [10, 20, 30]
      [\<lparr>userId = 1, movieId = 10, rating = 5, timestamp = 0\<rparr>,
       \<lparr>userId = 1, movieId = 20, rating = 4, timestamp = 1\<rparr>,
       \<lparr>userId = 2, movieId = 10, rating = 3, timestamp = 2\<rparr>,
       \<lparr>userId = 2, movieId = 30, rating = 3, timestamp = 3\<rparr>]
     = [\<lparr>userId = 1, movieId = 10, rating = 5, timestamp = 0\<rparr>,
        \<lparr>userId = 2, movieId = 10, rating = 3, timestamp = 2\<rparr>]
   \<and> prune_users 2 [\<lparr>userId = 1, movieId = 10, rating = 5, timestamp = 0\<rparr>,
        \<lparr>userId = 2, movieId = 10, rating = 3, timestamp = 2\<rparr>] = []"
  by (simp add: kept_ratings_def prune_users_def prune_items_def value_count_def)

section \<open>Properties of the example sampler\<close>

lemma pos_loop_outcome:
  "pos_loop movies uid xs pos_rows =
     (if list_ex (\<lambda>x. movies (movieId x) \<noteq> None) xs then Inl TypeError else Inr pos_rows)"
  by (induction xs arbitrary: pos_rows) (simp_all add: call_make_row_def)

lemma list_ex_sort_key: "list_ex P (sort_key f xs) = list_ex P xs"
  by (simp add: list_ex_iff)

lemma user_block_outcome:
  "user_block draw p uid grp g =
     Some (if list_ex (\<lambda>x. real_of_int (p_pos_thresh p) \<le> rating x \<and> p_movies p (movieId x) \<noteq> None) grp
           then Inl TypeError else Inr ([], g))"
proof -
  let ?pos = "filter (\<lambda>x. real_of_int (p_pos_thresh p) \<le> rating x) grp"
  have ex: "list_ex (\<lambda>x. p_movies p (movieId x) \<noteq> None) (sort_key timestamp ?pos)
      = list_ex (\<lambda>x. real_of_int (p_pos_thresh p) \<le> rating x \<and> p_movies p (movieId x) \<noteq> None) grp"
    by (auto simp: list_ex_iff)
  show ?thesis
  proof (cases "sort_key timestamp ?pos = []")
    case True
    then have "\<not> list_ex (\<lambda>x. p_movies p (movieId x) \<noteq> None) (sort_key timestamp ?pos)"
      by simp
    with True show ?thesis
      unfolding ex by (simp add: user_block_def)
  next
    case False
    then show ?thesis
      using ex by (simp add: user_block_def Let_def pos_loop_outcome)
  qed
qed

lemma users_loop_outcome:
  "users_loop draw p groups rows kept_users g =
     Some (if list_ex (\<lambda>ug. list_ex (\<lambda>x. real_of_int (p_pos_thresh p) \<le> rating x
                                       \<and> p_movies p (movieId x) \<noteq> None) (snd ug)) groups
           then Inl TypeError else Inr (rows, kept_users))"
  by (induction groups arbitrary: g) (auto simp: user_block_outcome)

lemma list_ex_groupby:
  "list_ex (\<lambda>ug. list_ex P (snd ug)) (groupby_userId ratings) = list_ex P ratings"
  by (auto simp: groupby_userId_def list_ex_iff set_unique_from unique_def)

text \<open>
  C2. For every user with a positive item, the sampler should emit one label-1 row per
  positive item that has metadata. The run never gets that far: the first such item makes
  \<open>main\<close> call \<open>make_row\<close> with five arguments, and the run ends in \<open>TypeError\<close>. A run
  returns only when no positive item of any user has metadata, and then it has no rows.
\<close>

theorem build_features_positive_raises:
  "build_features draw g ratings movies cand_map hard_n easy_n pos_thresh =
     Some (if list_ex (\<lambda>x. real_of_int pos_thresh \<le> rating x \<and> movies (movieId x) \<noteq> None) ratings
           then Inl TypeError else Inr ([], 0))"
  unfolding build_features_def users_loop_outcome list_ex_groupby by simp


lemma bounded_draw_counter: "bounded_draw counter_draw"
  by (simp add: bounded_draw_def counter_draw_def)

lemma rng_choice_in_pool:
  assumes "bounded_draw draw" and "pop_items \<noteq> []"
  shows "fst (rng_choice draw pop_items g) \<in> set pop_items"
proof -
  have "fst (draw g (length pop_items)) < length pop_items"
    using assms by (simp add: bounded_draw_def)
  then show ?thesis
    by (simp add: rng_choice_def split_beta)
qed

lemma easy_neg_loop_stuck:
  assumes run: "easy_neg_loop draw pop_items n seen out g = Some y"
    and "bounded_draw draw" and "pop_items \<noteq> []"
  shows "n \<le> int (card (set pop_items - seen)) + int (length out)"
  using assms(2,3)
proof (induction rule: easy_neg_loop.raw_induct [OF _ run])
  case (1 loop draw pop_items n seen out g y)
  show ?case
  proof (cases "int (length out) < n")
    case False
    then show ?thesis by simp
  next
    case True
    obtain item g' where ch: "rng_choice draw pop_items g = (item, g')"
      by (cases "rng_choice draw pop_items g")
    have item: "item \<in> set pop_items"
      using rng_choice_in_pool [OF "1.prems"(1,2), of g] ch by simp
    show ?thesis
    proof (cases "item \<in> seen")
      case True
      with \<open>int (length out) < n\<close> ch "1.hyps"
      have "loop draw pop_items n seen out g' = Some y" by simp
      then show ?thesis
        using "1.IH" "1.prems" by blast
    next
      case False
      with \<open>int (length out) < n\<close> ch "1.hyps"
      have "loop draw pop_items n (insert item seen) (out @ [item]) g' = Some y" by simp
      then have le: "n \<le> int (card (set pop_items - insert item seen)) + int (length (out @ [item]))"
        using "1.IH" "1.prems" by blast
      have mem: "item \<in> set pop_items - seen"
        using item False by simp
      have "Suc (card ((set pop_items - seen) - {item})) = card (set pop_items - seen)"
        by (rule card_Suc_Diff1 [OF _ mem]) simp
      moreover have "(set pop_items - seen) - {item} = set pop_items - insert item seen"
        by blast
      ultimately have "Suc (card (set pop_items - insert item seen)) = card (set pop_items - seen)"
        by (simp only:)
      with le show ?thesis
        by simp
    qed
  qed
qed

text \<open>
  C3. Easy-negative sampling should end on every input and report an exhausted pool as an
  error. When the pool holds fewer than \<open>n\<close> unseen items the loop of \<open>sample_easy_neg\<close>
  never ends, whatever the generator draws: every further draw is an item already seen.
\<close>

theorem sample_easy_neg_pool_exhausted:
  assumes "bounded_draw draw" and "pop_items \<noteq> []"
    and "int (card (set pop_items - seen)) < n"
  shows "sample_easy_neg draw seen pop_items n g = None"
proof (rule ccontr)
  assume "sample_easy_neg draw seen pop_items n g \<noteq> None"
  then obtain y where "easy_neg_loop draw pop_items n seen [] g = Some y"
    using assms(2,3) by (auto simp: sample_easy_neg_def split: if_splits)
  from easy_neg_loop_stuck [OF this assms(1,2)] assms(3) show False
    by simp
qed

theorem sample_easy_neg_pool_exhausted_witness:
  "bounded_draw counter_draw \<and> [10] \<noteq> ([] :: int list) \<and> int (card (set [10] - {10::int})) < 1
   \<and> sample_easy_neg counter_draw {10} [10] 1 (0::nat) = None"
  using sample_easy_neg_pool_exhausted [of counter_draw "[10]" "{10}" 1 0] bounded_draw_counter
  by simp


lemma easy_neg_loop_fresh:
  assumes run: "easy_neg_loop draw pop_items n seen out g = Some y"
  shows "\<exists>new. fst y = out @ new \<and> distinct new \<and> set new \<inter> seen = {}
           \<and> fst (snd y) = seen \<union> set new"
proof (induction rule: easy_neg_loop.raw_induct [OF _ run])
  case (1 loop draw pop_items n seen out g y)
  show ?case
  proof (cases "int (length out) < n")
    case False
    with "1.hyps" have "y = (out, seen, g)" by simp
    then show ?thesis by simp
  next
    case True
    obtain item g' where ch: "rng_choice draw pop_items g = (item, g')"
      by (cases "rng_choice draw pop_items g")
    show ?thesis
    proof (cases "item \<in> seen")
      case True
      with \<open>int (length out) < n\<close> ch "1.hyps"
      have "loop draw pop_items n seen out g' = Some y" by simp
      then show ?thesis by (rule "1.IH")
    next
      case False
      with \<open>int (length out) < n\<close> ch "1.hyps"
      have "loop draw pop_items n (insert item seen) (out @ [item]) g' = Some y" by simp
      then obtain new where new: "fst y = (out @ [item]) @ new" "distinct new"
          "set new \<inter> insert item seen = {}" "fst (snd y) = insert item seen \<union> set new"
        using "1.IH" by blast
      have "fst y = out @ (item # new)" using new(1) by simp
      moreover have "distinct (item # new)" using new(2,3) by auto
      moreover have "set (item # new) \<inter> seen = {}" using new(3) False by auto
      moreover have "fst (snd y) = seen \<union> set (item # new)" using new(4) by auto
      ultimately show ?thesis by blast
    qed
  qed
qed

lemma sample_easy_neg_fresh:
  assumes "sample_easy_neg draw seen pop_items n g = Some (out, seen', g')"
  shows "distinct out \<and> set out \<inter> seen = {} \<and> seen' = seen \<union> set out"
proof (cases "n = 0 \<or> pop_items = []")
  case True
  with assms show ?thesis by (auto simp: sample_easy_neg_def)
next
  case False
  with assms have "easy_neg_loop draw pop_items n seen [] g = Some (out, seen', g')"
    by (simp add: sample_easy_neg_def)
  from easy_neg_loop_fresh [OF this] show ?thesis by simp
qed

lemma set_py_take: "set (py_take n xs) \<subseteq> set xs"
  by (auto simp: py_take_def dest: in_set_takeD)

lemma distinct_py_take: "distinct xs \<Longrightarrow> distinct (py_take n xs)"
  by (simp add: py_take_def)

lemma hard_negatives_unseen:
  "set (hard_negatives movies cand_map uid seen_items hard_n) \<inter> seen_items = {}"
  using set_py_take [of hard_n "filter (\<lambda>i. i \<notin> seen_items \<and> movies i \<noteq> None)
          (case cand_map uid of None \<Rightarrow> [] | Some cs \<Rightarrow> cs)"]
  by (auto simp: hard_negatives_def)

lemma hard_negatives_meta:
  "list_all (\<lambda>i. movies i \<noteq> None) (hard_negatives movies cand_map uid seen_items hard_n)"
  using set_py_take [of hard_n "filter (\<lambda>i. i \<notin> seen_items \<and> movies i \<noteq> None)
          (case cand_map uid of None \<Rightarrow> [] | Some cs \<Rightarrow> cs)"]
  by (auto simp: hard_negatives_def list_all_iff)

text \<open>
  C5, amended: no sampled negative, hard, easy or fallback, is an item the user has rated;
  every sampled negative has metadata; the easy negatives are pairwise distinct, and the
  hard negatives are the unseen candidates in candidate order. The exclusion set of the
  easy draw is a copy of the rated items only: the hard negatives are not in it, so an easy
  negative may repeat a hard negative.
\<close>

theorem negatives_unseen:
  assumes "sample_negatives draw movies cand_map pop_items hard_n easy_n uid seen_items g
             = Some (hard_neg, easy_neg, g')"
  shows "set hard_neg \<inter> seen_items = {} \<and> set easy_neg \<inter> seen_items = {}
     \<and> distinct easy_neg
     \<and> list_all (\<lambda>i. movies i \<noteq> None) (hard_neg @ easy_neg)
     \<and> hard_negatives movies cand_map uid seen_items hard_n = hard_neg"
proof -
  let ?hard = "hard_negatives movies cand_map uid seen_items hard_n"
  obtain ids s1 g1 where e1: "sample_easy_neg draw seen_items pop_items easy_n g = Some (ids, s1, g1)"
  proof (cases "sample_easy_neg draw seen_items pop_items easy_n g")
    case None
    with assms show ?thesis by (simp add: sample_negatives_def)
  next
    case (Some t)
    then show ?thesis using that by (cases t) simp
  qed
  have f1: "distinct ids" "set ids \<inter> seen_items = {}"
    using sample_easy_neg_fresh [OF e1] by simp_all
  have hard: "hard_neg = ?hard"
    using assms e1 by (auto simp: sample_negatives_def Let_def split: option.splits if_splits)
  have easy: "distinct easy_neg \<and> set easy_neg \<inter> seen_items = {}
      \<and> list_all (\<lambda>i. movies i \<noteq> None) easy_neg"
  proof (cases "?hard = [] \<and> filter (\<lambda>i. movies i \<noteq> None) ids = []")
    case False
    then have "easy_neg = filter (\<lambda>i. movies i \<noteq> None) ids"
      using assms e1 by (auto simp: sample_negatives_def Let_def split: if_splits)
    with f1 show ?thesis by (auto simp: list_all_iff)
  next
    case True
    obtain fb s2 g2 where e2: "sample_easy_neg draw seen_items pop_items 1 g1 = Some (fb, s2, g2)"
    proof (cases "sample_easy_neg draw seen_items pop_items 1 g1")
      case None
      with assms e1 True show ?thesis by (simp add: sample_negatives_def)
    next
      case (Some t)
      then show ?thesis using that by (cases t) simp
    qed
    have eq: "easy_neg = filter (\<lambda>i. movies i \<noteq> None) fb"
      using assms e1 e2 True by (simp add: sample_negatives_def)
    have "distinct fb" "set fb \<inter> seen_items = {}"
      using sample_easy_neg_fresh [OF e2] by simp_all
    with eq show ?thesis by (auto simp: list_all_iff)
  qed
  show ?thesis
    using easy hard hard_negatives_unseen [of movies cand_map uid seen_items hard_n]
      hard_negatives_meta [of movies cand_map uid seen_items hard_n]
    by simp
qed


text \<open>
  C5, as stated: the negatives of one user are pairwise distinct because the easy draw
  excludes the hard negatives. For a user who rated item 10, with candidate 30 and the pool
  10, 30, item 30 is the hard negative and is drawn again as the easy negative.
\<close>

theorem negatives_duplicate_counterexample:
  "sample_negatives counter_draw [10 \<mapsto> sample_meta, 30 \<mapsto> sample_meta] [1 \<mapsto> [30]] [10, 30] 1 1 1 {10} (1::nat)
     = Some ([30], [30], 2)
   \<and> \<not> distinct ([30] @ [30 :: int])"
  by (rule conjI, code_simp, simp)

theorem negatives_unseen_witness:
  "sample_negatives counter_draw [10 \<mapsto> sample_meta, 30 \<mapsto> sample_meta, 40 \<mapsto> sample_meta] [1 \<mapsto> [10, 30, 50]]
       [10, 30, 40] 1 2 1 {10} (0::nat) = Some ([30], [30, 40], 3)
   \<and> set [30] \<inter> {10 :: int} = {} \<and> set [30, 40] \<inter> {10 :: int} = {}
   \<and> distinct [30, 40 :: int]
   \<and> hard_negatives [10 \<mapsto> sample_meta, 30 \<mapsto> sample_meta, 40 \<mapsto> sample_meta] [1 \<mapsto> [10, 30, 50]] 1 {10} 1 = [30]"
proof -
  have ev: "sample_negatives counter_draw [10 \<mapsto> sample_meta, 30 \<mapsto> sample_meta, 40 \<mapsto> sample_meta] [1 \<mapsto> [10, 30, 50]]
       [10, 30, 40] 1 2 1 {10} (0::nat) = Some ([30], [30, 40], 3)"
    by code_simp
  from negatives_unseen [OF ev] ev show ?thesis
    by simp
qed






text \<open>
  C4. Each easy-negative draw should pick an item with probability proportional to its
  number of ratings. The pool passed to \<open>sample_easy_neg\<close> holds the distinct item ids
  only, and the draw is the pool entry at the index the generator returns, uniform over the
  positions. With item 10 rated three times and item 20 once, the pool is \<open>[10, 20]\<close> and
  item 10 is drawn for one index of two, not for three outcomes of four.
\<close>

theorem easy_negative_draw_ignores_counts:
  "pop_items_of
      [\<lparr>userId = 1, movieId = 10, rating = 5, timestamp = 0\<rparr>,
       \<lparr>userId = 2, movieId = 10, rating = 4, timestamp = 1\<rparr>,
       \<lparr>userId = 3, movieId = 10, rating = 3, timestamp = 2\<rparr>,
       \<lparr>userId = 1, movieId = 20, rating = 2, timestamp = 3\<rparr>] = [10, 20]
   \<and> value_count movieId
      [\<lparr>userId = 1, movieId = 10, rating = 5, timestamp = 0\<rparr>,
       \<lparr>userId = 2, movieId = 10, rating = 4, timestamp = 1\<rparr>,
       \<lparr>userId = 3, movieId = 10, rating = 3, timestamp = 2\<rparr>,
       \<lparr>userId = 1, movieId = 20, rating = 2, timestamp = 3\<rparr>] 10 = 3
   \<and> value_count movieId
      [\<lparr>userId = 1, movieId = 10, rating = 5, timestamp = 0\<rparr>,
       \<lparr>userId = 2, movieId = 10, rating = 4, timestamp = 1\<rparr>,
       \<lparr>userId = 3, movieId = 10, rating = 3, timestamp = 2\<rparr>,
       \<lparr>userId = 1, movieId = 20, rating = 2, timestamp = 3\<rparr>] 20 = 1
   \<and> fst (rng_choice draw [10, 20] g) = [10, 20] ! fst (draw g 2)
   \<and> map (\<lambda>s. fst (rng_choice counter_draw [10, 20] s)) [0, 1, 2, 3] = [10, 20, 10, 20]"
proof (intro conjI)
  show "fst (rng_choice draw [10, 20] g) = [10, 20] ! fst (draw g 2)"
    by (simp add: rng_choice_def split_beta numeral_2_eq_2)
  show "map (\<lambda>s. fst (rng_choice counter_draw [10, 20] s)) [0, 1, 2, 3] = [10, 20, 10, 20]"
    by code_simp
qed (simp_all add: pop_items_of_def value_count_def unique_def)

subsection \<open>The loops with the call as a parameter\<close>







lemma returns_make_row_call_make_row: "returns_make_row call_make_row"
  by (auto simp: returns_make_row_def call_make_row_def split: if_splits)
















end
